theory Spec2Isabelle
  imports Main
begin

section \<open>Data model\<close>

text \<open>
  Python integers are unbounded, so offsets into a run's text are \<open>int\<close>; a match span is
  the pair \<open>(match.start(), match.end())\<close>. A run's text is a \<open>string\<close> and \<open>len\<close> of
  it is \<open>int (length _)\<close>.
\<close>

type_synonym span = "int \<times> int"

text \<open>The two colour types of the document library, as far as \<open>redact.py\<close> uses them.\<close>

datatype RGBColor = RGBColor nat nat nat

datatype WD_COLOR_INDEX =
    AUTO | BLACK | BLUE | BRIGHT_GREEN | DARK_BLUE | DARK_RED | DARK_YELLOW
  | GRAY_25 | GRAY_50 | GREEN | PINK | RED | TEAL | TURQUOISE | VIOLET | WHITE | YELLOW

text \<open>
  A run: its text (\<open>run.text\<close>), the two font properties the orchestrator writes
  (\<open>run.font.highlight_color\<close> and \<open>run.font.color.rgb\<close>, \<open>None\<close> when unset) and
  every other formatting property as one opaque value.
\<close>

record 'f run =
  rtext :: string
  highlight_color :: "WD_COLOR_INDEX option"
  color_rgb :: "RGBColor option"
  formatting :: 'f

section \<open>The Match Resolver: \<open>process_matches\<close>\<close>

text \<open>
  The function works on three lists: it reads \<open>match_pairs\<close> and appends to \<open>matches\<close>
  and \<open>highlights\<close>; \<open>prev\<close> is the local variable of the loop. The state below holds
  all four, so that every statement of the source is one update of it. \<open>prev\<close> is unbound
  in the source until the first match has been handled and is never read before; it
  starts at \<open>0\<close> here.
\<close>

record pm_state =
  match_pairs :: "span list"
  matches :: "int list"
  highlights :: "bool list"
  prev :: int

text \<open>The body of \<open>for idx in range(1, len(match_pairs))\<close>.\<close>

definition loop_body :: "nat \<Rightarrow> pm_state \<Rightarrow> pm_state" where
  "loop_body idx st =
     (let st = (if prev st \<noteq> fst (match_pairs st ! idx)
                then (let st = st\<lparr>highlights := highlights st @ [False]\<rparr>
                      in st\<lparr>matches := matches st @ [fst (match_pairs st ! idx)]\<rparr>)
                else st);
          st = st\<lparr>highlights := highlights st @ [True]\<rparr>;
          st = st\<lparr>matches := matches st @ [snd (match_pairs st ! idx)]\<rparr>
      in st\<lparr>prev := snd (match_pairs st ! idx)\<rparr>)"

text \<open>
  The whole function body, as a state transformer. \<open>match_pairs[0]\<close> is read only under
  \<open>len(match_pairs) > 0\<close> and \<open>matches[-1]\<close> only after an append, so neither can raise;
  \<open>idx\<close> ranges over \<open>range(1, len(match_pairs))\<close>, so \<open>match_pairs[idx]\<close> is in range.
\<close>

definition process_matches_state :: "span list \<Rightarrow> string \<Rightarrow> pm_state" where
  "process_matches_state mp run_text =
     (let st = \<lparr>match_pairs = mp, matches = [], highlights = [], prev = 0\<rparr>
      in if length (match_pairs st) > 0 then
           (let st = (if fst (match_pairs st ! 0) \<noteq> 0
                      then (let st = st\<lparr>matches := matches st @ [0]\<rparr>
                            in st\<lparr>highlights := highlights st @ [False]\<rparr>)
                      else st);
                st = st\<lparr>matches := matches st @ [fst (match_pairs st ! 0)]\<rparr>;
                st = st\<lparr>highlights := highlights st @ [True]\<rparr>;
                st = st\<lparr>matches := matches st @ [snd (match_pairs st ! 0)]\<rparr>;
                st = st\<lparr>prev := snd (match_pairs st ! 0)\<rparr>;
                st = fold loop_body [1..<length (match_pairs st)] st
            in if last (matches st) \<noteq> int (length run_text)
               then (let st = st\<lparr>highlights := highlights st @ [False]\<rparr>
                     in st\<lparr>matches := matches st @ [int (length run_text)]\<rparr>)
               else st)
         else st)"

text \<open>\<open>return highlights, matches\<close>.\<close>

definition process_matches :: "span list \<Rightarrow> string \<Rightarrow> bool list \<times> int list" where
  "process_matches mp run_text =
     (let st = process_matches_state mp run_text in (highlights st, matches st))"

section \<open>Colours: \<open>redact_colors\<close>\<close>

text \<open>
  \<open>switcher\<close> is the dictionary literal of the source; its keys are strings, and the
  argument \<open>color\<close> is a string or \<open>None\<close>, so the key type is \<open>string option\<close>.
  \<open>switcher.get(color, default)\<close> returns the default for every key that is not in the
  dictionary.
\<close>

definition switcher :: "string option \<rightharpoonup> RGBColor \<times> WD_COLOR_INDEX" where
  "switcher = Map.empty
     (Some ''white'' \<mapsto> (RGBColor 255 255 255, WHITE),
      Some ''yellow'' \<mapsto> (RGBColor 255 255 0, YELLOW))"

definition redact_colors :: "string option \<Rightarrow> RGBColor \<times> WD_COLOR_INDEX" where
  "redact_colors color =
     (case switcher color of Some v \<Rightarrow> v | None \<Rightarrow> (RGBColor 0 0 0, BLACK))"

section \<open>The Run Splitter\<close>

text \<open>
  Python's slice \<open>xs[a:b]\<close> on a sequence of length \<open>n\<close>: a negative bound counts from
  the end, and every bound is clamped to \<open>0..n\<close>.
\<close>

definition py_index :: "int \<Rightarrow> int \<Rightarrow> int" where
  "py_index n i = (if i < 0 then max (i + n) 0 else min i n)"

definition py_slice :: "'a list \<Rightarrow> int \<Rightarrow> int \<Rightarrow> 'a list" where
  "py_slice xs a b =
     (let n = int (length xs); lo = py_index n a; hi = py_index n b
      in take (nat (hi - lo)) (drop (nat lo) xs))"

text \<open>
  Modelled from the spec: the cloning of formatting that \<open>split_run_by\<close> relies on,
  which is part of the module \<open>run_tools\<close> and is not among the source files. The spec
  (section 4.2, Failure) says: a new run clones every formatting property of the
  original, and a property whose cloning the Document Model does not support is left
  at the Model's default on the new run, without an error. The formatting of a run is
  a bag of properties, a map from property names to values in which a property at its
  default has no entry; \<open>supported\<close> is the set of properties the Document Model can
  clone.
\<close>

definition clone_formatting :: "'k set \<Rightarrow> ('k \<rightharpoonup> 'v) \<Rightarrow> ('k \<rightharpoonup> 'v)" where
  "clone_formatting supported fmt = fmt |` supported"

text \<open>
  Modelled from the spec: \<open>split_run_by\<close> of the module \<open>run_tools\<close>, which
  \<open>redact.py\<close> imports and which is not among the source files. The spec (section 4.2)
  says: for interior offsets \<open>split_by\<close> it produces \<open>len(split_by) + 1\<close> runs; the first
  is the original run itself with its text cut to the first slice; each further run is
  a new run, inserted right after the previous one, that clones the formatting of the
  original (as far as the Document Model supports it, see \<open>clone_formatting\<close>) and
  carries the next slice of the text; the texts concatenate to the original text. The
  result is the list of runs that takes the place of the original run in the
  paragraph. The highlight colour and the text colour are properties the document
  library can set (the orchestrator sets them), so a new run carries them over. The
  spec states this for strictly increasing offsets inside the text; the orchestrator
  also passes other offsets (a match of the empty string repeats an offset), and the
  model cuts them with the same slices, which gives a run with empty text.
\<close>

definition split_run_by ::
  "'k set \<Rightarrow> ('k \<rightharpoonup> 'v) run \<Rightarrow> int list \<Rightarrow> ('k \<rightharpoonup> 'v) run list" where
  "split_run_by supported r split_by =
     (let bounds = 0 # split_by @ [int (length (rtext r))];
          new_run = r\<lparr>formatting := clone_formatting supported (formatting r)\<rparr>
      in case zip bounds (tl bounds) of
           [] \<Rightarrow> []
         | (a, b) # slices \<Rightarrow>
             r\<lparr>rtext := py_slice (rtext r) a b\<rparr>
               # map (\<lambda>(a, b). new_run\<lparr>rtext := py_slice (rtext r) a b\<rparr>) slices)"

section \<open>The Redaction Orchestrator: \<open>redact_document\<close>\<close>

datatype error = ValueError string

text \<open>
  The three statements that redact one run (they appear twice in the source, for the
  whole-run case and inside the loop over the split runs): replace the text if
  \<open>replace_with is not None\<close>, set the highlight colour, set the text colour.
\<close>

definition redact_span :: "string option \<Rightarrow> RGBColor \<Rightarrow> WD_COLOR_INDEX \<Rightarrow> 'f run \<Rightarrow> 'f run" where
  "redact_span replace_with txt_color background_color r =
     (let r = (case replace_with of Some s \<Rightarrow> r\<lparr>rtext := s\<rparr> | None \<Rightarrow> r);
          r = r\<lparr>highlight_color := Some background_color\<rparr>
      in r\<lparr>color_rgb := Some txt_color\<rparr>)"

text \<open>
  \<open>for highlight, run in zip(highlights, new_runs)\<close>: \<open>zip\<close> stops at the shorter list;
  runs beyond it stay as they are.
\<close>

fun highlight_runs ::
  "string option \<Rightarrow> RGBColor \<Rightarrow> WD_COLOR_INDEX \<Rightarrow> bool list \<Rightarrow> 'f run list \<Rightarrow> 'f run list" where
  "highlight_runs replace_with txt_color background_color (h # hs) (r # rs) =
     (if h then redact_span replace_with txt_color background_color r else r)
       # highlight_runs replace_with txt_color background_color hs rs"
| "highlight_runs replace_with txt_color background_color [] rs = rs"
| "highlight_runs replace_with txt_color background_color hs [] = []"

text \<open>
  What the orchestrator does to one run once the resolver has returned \<open>hs\<close>
  (\<open>highlights\<close>) and \<open>ms\<close> (\<open>matches\<close>); the result is the list of runs that stands in
  the run's place afterwards. The splitter is a parameter. In the branch of the length
  check the source evaluates the expression \<open>ValueError(...)\<close> and drops the value: there
  is no \<open>raise\<close>, so control falls through to the decrement of the index.
  \<open>matches[1:-1]\<close> is \<open>butlast (tl ms)\<close>.
\<close>

definition apply_plan ::
  "('f run \<Rightarrow> int list \<Rightarrow> 'f run list) \<Rightarrow> string option \<Rightarrow> RGBColor \<Rightarrow> WD_COLOR_INDEX
     \<Rightarrow> 'f run \<Rightarrow> bool list \<Rightarrow> int list \<Rightarrow> error + 'f run list" where
  "apply_plan split replace_with txt_color background_color r hs ms =
     (if length hs > 0 \<and> length ms > 0 then
        (if int (length hs) \<noteq> int (length ms) - 1 then
           (let exc = ValueError ''Calculation error within matches and highlights''
            in Inr [r])
         else if length ms = 2 then
           Inr [redact_span replace_with txt_color background_color r]
         else
           Inr (highlight_runs replace_with txt_color background_color hs
                  (split r (butlast (tl ms)))))
      else Inr [r])"

text \<open>
  The body of the \<open>while\<close> loop for one run. \<open>finditer\<close> stands for the compiled
  alternation of the patterns applied to a text, giving the list of
  \<open>(match.start(), match.end())\<close>; the regular-expression library is not part of the
  program.
\<close>

definition redact_run ::
  "(string \<Rightarrow> span list) \<Rightarrow> ('f run \<Rightarrow> int list \<Rightarrow> 'f run list) \<Rightarrow> string option
     \<Rightarrow> RGBColor \<Rightarrow> WD_COLOR_INDEX \<Rightarrow> 'f run \<Rightarrow> error + 'f run list" where
  "redact_run finditer split replace_with txt_color background_color r =
     (let mp = finditer (rtext r);
          (hs, ms) = process_matches mp (rtext r)
      in apply_plan split replace_with txt_color background_color r hs ms)"

text \<open>
  The \<open>while run_index > -1\<close> loop over one paragraph, a list of runs. The first
  argument is \<open>run_index + 1\<close>. The runs produced for \<open>para.runs[run_index]\<close> take its
  place, so the runs at smaller indices do not move.
\<close>

fun redact_runs ::
  "(string \<Rightarrow> span list) \<Rightarrow> ('f run \<Rightarrow> int list \<Rightarrow> 'f run list) \<Rightarrow> string option
     \<Rightarrow> RGBColor \<Rightarrow> WD_COLOR_INDEX \<Rightarrow> nat \<Rightarrow> 'f run list \<Rightarrow> error + 'f run list" where
  "redact_runs finditer split replace_with txt_color background_color 0 runs = Inr runs"
| "redact_runs finditer split replace_with txt_color background_color (Suc run_index) runs =
     (case redact_run finditer split replace_with txt_color background_color (runs ! run_index) of
        Inl e \<Rightarrow> Inl e
      | Inr new_runs \<Rightarrow>
          redact_runs finditer split replace_with txt_color background_color run_index
            (take run_index runs @ new_runs @ drop (Suc run_index) runs))"

definition redact_paragraph ::
  "(string \<Rightarrow> span list) \<Rightarrow> ('f run \<Rightarrow> int list \<Rightarrow> 'f run list) \<Rightarrow> string option
     \<Rightarrow> RGBColor \<Rightarrow> WD_COLOR_INDEX \<Rightarrow> 'f run list \<Rightarrow> error + 'f run list" where
  "redact_paragraph finditer split replace_with txt_color background_color para =
     redact_runs finditer split replace_with txt_color background_color (length para) para"

text \<open>\<open>for para in doc.paragraphs\<close>; an exception in one paragraph ends the pass.\<close>

fun redact_paragraphs ::
  "(string \<Rightarrow> span list) \<Rightarrow> ('f run \<Rightarrow> int list \<Rightarrow> 'f run list) \<Rightarrow> string option
     \<Rightarrow> RGBColor \<Rightarrow> WD_COLOR_INDEX \<Rightarrow> 'f run list list \<Rightarrow> error + 'f run list list" where
  "redact_paragraphs finditer split replace_with txt_color background_color [] = Inr []"
| "redact_paragraphs finditer split replace_with txt_color background_color (para # paras) =
     (case redact_paragraph finditer split replace_with txt_color background_color para of
        Inl e \<Rightarrow> Inl e
      | Inr para' \<Rightarrow>
          (case redact_paragraphs finditer split replace_with txt_color background_color paras of
             Inl e \<Rightarrow> Inl e
           | Inr paras' \<Rightarrow> Inr (para' # paras')))"

text \<open>
  \<open>redact_document\<close> on the paragraphs of the loaded document; loading and saving the
  file belong to the document library.
\<close>

definition redact_document ::
  "(string \<Rightarrow> span list) \<Rightarrow> ('f run \<Rightarrow> int list \<Rightarrow> 'f run list) \<Rightarrow> 'f run list list
     \<Rightarrow> string option \<Rightarrow> string option \<Rightarrow> error + 'f run list list" where
  "redact_document finditer split doc replace_with color =
     (let (txt_color, background_color) = redact_colors color
      in redact_paragraphs finditer split replace_with txt_color background_color doc)"

section \<open>Vocabulary of the specification\<close>

text \<open>
  The input constraint of the Match Resolver: the spans are ordered, do not overlap and
  lie within the text. \<open>ordered_spans p mp n\<close> says \<open>p \<le> s\<^sub>1 \<le> e\<^sub>1 \<le> s\<^sub>2 \<le> \<dots> \<le> n\<close>;
  \<open>nonempty_spans\<close> says that every span has \<open>start < end\<close>.
\<close>

fun ordered_spans :: "int \<Rightarrow> span list \<Rightarrow> int \<Rightarrow> bool" where
  "ordered_spans p [] n = (p \<le> n)"
| "ordered_spans p ((s, e) # ps) n = (p \<le> s \<and> s \<le> e \<and> ordered_spans e ps n)"

fun nonempty_spans :: "span list \<Rightarrow> bool" where
  "nonempty_spans [] = True"
| "nonempty_spans ((s, e) # ps) = (s < e \<and> nonempty_spans ps)"


text \<open>
  The matcher for one literal pattern (no metacharacters), as the regular-expression
  library finds it: left to right, each match starting at the first position at or after
  the end of the previous one. \<open>skip\<close> counts the characters still covered by the last
  match, \<open>i\<close> is the position of the text that is left.
\<close>

fun finditer_literal_from :: "string \<Rightarrow> nat \<Rightarrow> nat \<Rightarrow> string \<Rightarrow> span list" where
  "finditer_literal_from pat skip i [] =
     (if pat = [] \<and> skip = 0 then [(int i, int i)] else [])"
| "finditer_literal_from pat skip i (c # cs) =
     (if skip > 0 then finditer_literal_from pat (skip - 1) (Suc i) cs
      else if take (length pat) (c # cs) = pat
      then (int i, int i + int (length pat))
             # finditer_literal_from pat (length pat - 1) (Suc i) cs
      else finditer_literal_from pat 0 (Suc i) cs)"

definition finditer_literal :: "string \<Rightarrow> string \<Rightarrow> span list" where
  "finditer_literal pat t = finditer_literal_from pat 0 0 t"

section \<open>The resolver as a recursion over the spans\<close>

text \<open>
  The flags and the offsets that the resolver appends after an offset \<open>p\<close> for the spans
  still to come, and the last statement of the function as a state transformer. They
  are used to reason about the loop; \<open>process_matches_unfold\<close> ties them to the code.
\<close>

fun seg_flags :: "int \<Rightarrow> span list \<Rightarrow> int \<Rightarrow> bool list" where
  "seg_flags p [] n = (if p \<noteq> n then [False] else [])"
| "seg_flags p ((s, e) # ps) n = (if p \<noteq> s then [False, True] else [True]) @ seg_flags e ps n"

fun seg_offsets :: "int \<Rightarrow> span list \<Rightarrow> int \<Rightarrow> int list" where
  "seg_offsets p [] n = (if p \<noteq> n then [n] else [])"
| "seg_offsets p ((s, e) # ps) n = (if p \<noteq> s then [s, e] else [e]) @ seg_offsets e ps n"

definition finish :: "int \<Rightarrow> pm_state \<Rightarrow> pm_state" where
  "finish n st = (if last (matches st) \<noteq> n
               then (let st = st\<lparr>highlights := highlights st @ [False]\<rparr>
                     in st\<lparr>matches := matches st @ [n]\<rparr>)
               else st)"

section \<open>Properties of the resolver\<close>

lemma seg_flags_Cons:
  "seg_flags p (x # ps) n = (if p \<noteq> fst x then [False, True] else [True]) @ seg_flags (snd x) ps n"
  by (cases x) simp

lemma seg_offsets_Cons:
  "seg_offsets p (x # ps) n = (if p \<noteq> fst x then [fst x, snd x] else [snd x]) @ seg_offsets (snd x) ps n"
  by (cases x) simp

lemma loop_body_fields:
  "match_pairs (loop_body idx st) = match_pairs st"
  "prev (loop_body idx st) = snd (match_pairs st ! idx)"
  "highlights (loop_body idx st) =
     highlights st @ (if prev st \<noteq> fst (match_pairs st ! idx) then [False, True] else [True])"
  "matches (loop_body idx st) =
     matches st @ (if prev st \<noteq> fst (match_pairs st ! idx)
                   then [fst (match_pairs st ! idx), snd (match_pairs st ! idx)]
                   else [snd (match_pairs st ! idx)])"
  by (simp_all add: loop_body_def Let_def)

lemma fold_loop_body:
  assumes "d = length (match_pairs st) - k" "k \<le> length (match_pairs st)"
    "matches st \<noteq> []" "last (matches st) = prev st"
  shows "match_pairs (finish n (fold loop_body [k..<length (match_pairs st)] st)) = match_pairs st
    \<and> highlights (finish n (fold loop_body [k..<length (match_pairs st)] st))
        = highlights st @ seg_flags (prev st) (drop k (match_pairs st)) n
    \<and> matches (finish n (fold loop_body [k..<length (match_pairs st)] st))
        = matches st @ seg_offsets (prev st) (drop k (match_pairs st)) n"
  using assms
proof (induction d arbitrary: k st)
  case 0
  then show ?case by (simp add: finish_def Let_def)
next
  case (Suc d)
  let ?mp = "match_pairs st"
  let ?st1 = "loop_body k st"
  from Suc.prems have klt: "k < length ?mp" by simp
  have upt: "[k..<length ?mp] = k # [Suc k..<length ?mp]"
    using klt by (simp add: upt_conv_Cons)
  have dr: "drop k ?mp = (?mp ! k) # drop (Suc k) ?mp"
    using klt by (simp add: Cons_nth_drop_Suc)
  have mp1: "match_pairs ?st1 = ?mp" by (simp add: loop_body_fields)
  have IH: "match_pairs (finish n (fold loop_body [Suc k..<length (match_pairs ?st1)] ?st1)) = match_pairs ?st1
    \<and> highlights (finish n (fold loop_body [Suc k..<length (match_pairs ?st1)] ?st1))
        = highlights ?st1 @ seg_flags (prev ?st1) (drop (Suc k) (match_pairs ?st1)) n
    \<and> matches (finish n (fold loop_body [Suc k..<length (match_pairs ?st1)] ?st1))
        = matches ?st1 @ seg_offsets (prev ?st1) (drop (Suc k) (match_pairs ?st1)) n"
  proof (rule Suc.IH)
    show "d = length (match_pairs ?st1) - Suc k" using Suc.prems mp1 by simp
    show "Suc k \<le> length (match_pairs ?st1)" using klt mp1 by simp
    show "matches ?st1 \<noteq> []" by (simp add: loop_body_fields)
    show "last (matches ?st1) = prev ?st1" by (simp add: loop_body_fields)
  qed
  have f: "fold loop_body [k..<length ?mp] st = fold loop_body [Suc k..<length ?mp] ?st1"
    by (subst upt) simp
  show ?case
    unfolding f using IH unfolding mp1
    by (subst (1 2) dr) (simp add: loop_body_fields seg_flags_Cons seg_offsets_Cons del: seg_flags.simps seg_offsets.simps)
qed

lemma process_matches_state_unfold:
  assumes "mp \<noteq> []"
  shows "match_pairs (process_matches_state mp t) = mp"
    and "highlights (process_matches_state mp t) = seg_flags 0 mp (int (length t))"
    and "matches (process_matches_state mp t) = 0 # seg_offsets 0 mp (int (length t))"
proof -
  obtain x ps where mp: "mp = x # ps" using assms by (cases mp) auto
  define st0 :: pm_state where
    "st0 = \<lparr>match_pairs = mp,
            matches = (if fst x \<noteq> 0 then [0, fst x, snd x] else [fst x, snd x]),
            highlights = (if fst x \<noteq> 0 then [False, True] else [True]),
            prev = snd x\<rparr>"
  have st0: "match_pairs st0 = mp" "prev st0 = snd x" "matches st0 \<noteq> []"
    "last (matches st0) = prev st0"
    by (simp_all add: st0_def)
  have eq: "process_matches_state mp t
      = finish (int (length t)) (fold loop_body [1..<length (match_pairs st0)] st0)"
    by (simp add: process_matches_state_def finish_def st0_def mp Let_def)
  have "1 \<le> length (match_pairs st0)" by (simp add: st0 mp)
  note F = fold_loop_body [OF refl this st0(3) st0(4), of "int (length t)", folded eq]
  have d: "drop 1 mp = ps" by (simp add: mp)
  have r: "match_pairs (process_matches_state mp t) = mp"
    "highlights (process_matches_state mp t) = highlights st0 @ seg_flags (snd x) ps (int (length t))"
    "matches (process_matches_state mp t) = matches st0 @ seg_offsets (snd x) ps (int (length t))"
    using F unfolding st0(1) st0(2) d by blast+
  show "match_pairs (process_matches_state mp t) = mp" by (rule r)
  show "highlights (process_matches_state mp t) = seg_flags 0 mp (int (length t))"
    using r(2) by (simp add: mp seg_flags_Cons st0_def del: seg_flags.simps)
  show "matches (process_matches_state mp t) = 0 # seg_offsets 0 mp (int (length t))"
    using r(3) by (simp add: mp seg_offsets_Cons st0_def del: seg_offsets.simps)
qed

lemma process_matches_Nil: "process_matches [] t = ([], [])"
  by (simp add: process_matches_def process_matches_state_def)

lemma process_matches_unfold:
  "mp \<noteq> [] \<Longrightarrow>
     process_matches mp t = (seg_flags 0 mp (int (length t)), 0 # seg_offsets 0 mp (int (length t)))"
  by (simp add: process_matches_def Let_def process_matches_state_unfold)

lemma length_seg: "length (seg_flags p mp n) = length (seg_offsets p mp n)"
  by (induction p mp n rule: seg_flags.induct) auto

lemma last_seg_offsets: "last (p # seg_offsets p mp n) = n"
  by (induction p mp n rule: seg_offsets.induct) auto

lemma count_seg_flags: "length (filter (\<lambda>h. h) (seg_flags p mp n)) = length mp"
  by (induction p mp n rule: seg_flags.induct) auto

lemma sorted_seg_offsets:
  "ordered_spans p mp n \<Longrightarrow> nonempty_spans mp \<Longrightarrow> sorted_wrt (<) (p # seg_offsets p mp n)"
proof (induction p mp n rule: seg_offsets.induct)
  case (1 p n)
  then show ?case by simp
next
  case (2 p s e ps n)
  then have IH: "sorted_wrt (<) (e # seg_offsets e ps n)" by simp
  have se: "s < e" "p \<le> s" using "2.prems" by simp_all
  have a: "\<forall>y\<in>set (seg_offsets e ps n). e < y" using IH by simp
  show ?case using IH se a by (auto simp: sorted_wrt_append)
qed

section \<open>Properties of the orchestrator\<close>

lemma seg_flags_nonempty: "seg_flags p (x # ps) n \<noteq> []"
  by (simp add: seg_flags_Cons del: seg_flags.simps)

lemma process_matches_lengths:
  assumes "process_matches mp t = (hs, ms)"
  shows "(mp = [] \<and> hs = [] \<and> ms = []) \<or> (mp \<noteq> [] \<and> hs \<noteq> [] \<and> length ms = length hs + 1)"
proof (cases mp)
  case Nil
  then show ?thesis using assms by (simp add: process_matches_Nil)
next
  case (Cons x ps)
  then have "mp \<noteq> []" by simp
  from process_matches_unfold [OF this, of t] assms
  have "hs = seg_flags 0 mp (int (length t))" "ms = 0 # seg_offsets 0 mp (int (length t))"
    by simp_all
  then show ?thesis using Cons by (simp add: length_seg seg_flags_nonempty del: seg_flags.simps seg_offsets.simps)
qed

lemma apply_plan_whole_run:
  "length hs = 1 \<Longrightarrow> length ms = 2 \<Longrightarrow>
     apply_plan split replace_with txt_color background_color r hs ms
       = Inr [redact_span replace_with txt_color background_color r]"
  by (simp add: apply_plan_def)

lemma apply_plan_split:
  "hs \<noteq> [] \<Longrightarrow> length ms = length hs + 1 \<Longrightarrow> length ms \<noteq> 2 \<Longrightarrow>
     apply_plan split replace_with txt_color background_color r hs ms
       = Inr (highlight_runs replace_with txt_color background_color hs (split r (butlast (tl ms))))"
  by (simp add: apply_plan_def)


lemma redact_span_fields:
  "rtext (redact_span replace_with txt_color background_color r)
     = (case replace_with of Some s \<Rightarrow> s | None \<Rightarrow> rtext r)"
  "highlight_color (redact_span replace_with txt_color background_color r) = Some background_color"
  "color_rgb (redact_span replace_with txt_color background_color r) = Some txt_color"
  "formatting (redact_span replace_with txt_color background_color r) = formatting r"
  by (simp_all add: redact_span_def Let_def split: option.splits)

lemma redact_span_eq:
  "redact_span replace_with txt_color background_color r
     = r\<lparr>rtext := (case replace_with of Some s \<Rightarrow> s | None \<Rightarrow> rtext r),
         highlight_color := Some background_color, color_rgb := Some txt_color\<rparr>"
  by (simp add: redact_span_def Let_def split: option.splits)


lemma nth_highlight_runs:
  "i < length hs \<Longrightarrow> i < length rs \<Longrightarrow>
     highlight_runs replace_with txt_color background_color hs rs ! i
       = (if hs ! i then redact_span replace_with txt_color background_color (rs ! i) else rs ! i)"
proof (induction replace_with txt_color background_color hs rs arbitrary: i
       rule: highlight_runs.induct)
  case (1 replace_with txt_color background_color h hs r rs)
  then show ?case by (cases i) simp_all
qed simp_all







lemma split_run_by_Cons:
  "split_run_by supported r split_by
     = r\<lparr>rtext := py_slice (rtext r) 0 (hd (split_by @ [int (length (rtext r))]))\<rparr>
       # map (\<lambda>(a, b). r\<lparr>formatting := clone_formatting supported (formatting r),
                          rtext := py_slice (rtext r) a b\<rparr>)
           (zip (split_by @ [int (length (rtext r))]) (tl (split_by @ [int (length (rtext r))])))"
  by (cases split_by) (simp_all add: split_run_by_def Let_def)

lemma length_split_run_by: "length (split_run_by supported r split_by) = length split_by + 1"
  by (simp add: split_run_by_Cons)






lemma redact_run_total:
  "\<exists>rs. redact_run finditer split replace_with txt_color background_color r = Inr rs"
  by (simp add: redact_run_def apply_plan_def Let_def split: prod.splits)


lemma redact_runs_concat:
  assumes "k \<le> length runs"
  shows "redact_runs finditer split replace_with txt_color background_color k runs
     = Inr (concat (map (\<lambda>r. projr (redact_run finditer split replace_with txt_color
                                       background_color r)) (take k runs))
            @ drop k runs)"
  using assms
proof (induction k arbitrary: runs)
  case 0
  then show ?case by simp
next
  case (Suc k)
  let ?g = "\<lambda>r. projr (redact_run finditer split replace_with txt_color background_color r)"
  let ?runs' = "take k runs @ ?g (runs ! k) @ drop (Suc k) runs"
  from Suc.prems have k: "k < length runs" by simp
  obtain rs where rs: "redact_run finditer split replace_with txt_color background_color (runs ! k)
      = Inr rs"
    using redact_run_total by blast
  then have g: "?g (runs ! k) = rs" by simp
  have tk: "take k ?runs' = take k runs" using k by simp
  have dk: "drop k ?runs' = ?g (runs ! k) @ drop (Suc k) runs" using k by simp
  have "redact_runs finditer split replace_with txt_color background_color (Suc k) runs
      = redact_runs finditer split replace_with txt_color background_color k ?runs'"
    by (simp add: rs)
  also have "\<dots> = Inr (concat (map ?g (take k ?runs')) @ drop k ?runs')"
    using k by (intro Suc.IH) simp
  also have "\<dots> = Inr (concat (map ?g (take (Suc k) runs)) @ drop (Suc k) runs)"
    unfolding tk dk using k by (simp add: take_Suc_conv_app_nth)
  finally show ?case .
qed

lemma redact_paragraph_concat:
  "redact_paragraph finditer split replace_with txt_color background_color para
     = Inr (concat (map (\<lambda>r. projr (redact_run finditer split replace_with txt_color
                                       background_color r)) para))"
  by (simp add: redact_paragraph_def redact_runs_concat)

lemma redact_paragraphs_map:
  "redact_paragraphs finditer split replace_with txt_color background_color doc
     = Inr (map (\<lambda>para. concat (map (\<lambda>r. projr (redact_run finditer split replace_with txt_color
                                                   background_color r)) para)) doc)"
  by (induction doc) (simp_all add: redact_paragraph_concat)

lemma redact_document_map:
  "redact_document finditer split doc replace_with color
     = Inr (map (\<lambda>para. concat (map (\<lambda>r. projr (redact_run finditer split replace_with
                                                   (fst (redact_colors color))
                                                   (snd (redact_colors color)) r)) para)) doc)"
  by (simp add: redact_document_def redact_paragraphs_map split: prod.splits)




section \<open>The claims about the resolver\<close>

text \<open>
  C2, as stated, asks only for spans that are ordered, do not overlap and lie within the
  text. A regular expression can match the empty string, and an empty span \<open>(2, 2)\<close>
  meets all three conditions; the resolver then emits the offset \<open>2\<close> twice, so the
  offsets are not strictly increasing.
\<close>

theorem empty_span_counterexample:
  "[(2, 2)] \<noteq> ([] :: span list)
   \<and> ordered_spans 0 [(2, 2)] (int (length ''abcde''))
   \<and> process_matches [(2, 2)] ''abcde'' = ([False, True, False], [0, 2, 2, 5])
   \<and> \<not> sorted_wrt (<) (snd (process_matches [(2, 2)] ''abcde''))"
  by (simp add: process_matches_def process_matches_state_def loop_body_def Let_def)

text \<open>
  C2 (amended): for every non-empty list of match spans that is ordered by start, does
  not overlap, lies within \<open>[0, len(run_text)]\<close> and has \<open>start < end\<close> in every span,
  the offsets returned by \<open>process_matches\<close> are strictly increasing, the first offset
  is \<open>0\<close>, the last is the length of the text, and
  \<open>len(highlights) == len(offsets) - 1\<close>.
\<close>

theorem process_matches_invariant_strict:
  assumes "mp \<noteq> []"
    and "ordered_spans 0 mp (int (length t))"
    and "nonempty_spans mp"
    and "process_matches mp t = (hs, ms)"
  shows "sorted_wrt (<) ms \<and> hd ms = 0 \<and> last ms = int (length t)
         \<and> int (length hs) = int (length ms) - 1"
proof -
  have hs: "hs = seg_flags 0 mp (int (length t))"
    and ms: "ms = 0 # seg_offsets 0 mp (int (length t))"
    using assms(1,4) by (simp_all add: process_matches_unfold)
  have "sorted_wrt (<) ms" unfolding ms using assms(2,3) by (rule sorted_seg_offsets)
  moreover have "hd ms = 0" by (simp add: ms)
  moreover have "last ms = int (length t)" unfolding ms by (rule last_seg_offsets)
  moreover have "int (length hs) = int (length ms) - 1" by (simp add: hs ms length_seg)
  ultimately show ?thesis by blast
qed

theorem process_matches_invariant_strict_witness:
  "[(5, 13)] \<noteq> ([] :: span list)
   \<and> ordered_spans 0 [(5, 13)] (int (length ''call 555-1234 now''))
   \<and> nonempty_spans [(5, 13)]
   \<and> sorted_wrt (<) (snd (process_matches [(5, 13)] ''call 555-1234 now''))
   \<and> hd (snd (process_matches [(5, 13)] ''call 555-1234 now'')) = 0
   \<and> last (snd (process_matches [(5, 13)] ''call 555-1234 now'')) = 17
   \<and> int (length (fst (process_matches [(5, 13)] ''call 555-1234 now'')))
       = int (length (snd (process_matches [(5, 13)] ''call 555-1234 now''))) - 1"
proof -
  have a: "[(5, 13)] \<noteq> ([] :: span list)" by simp
  have b: "ordered_spans 0 [(5, 13)] (int (length ''call 555-1234 now''))" by simp
  have c: "nonempty_spans [(5, 13)]" by simp
  have d: "process_matches [(5, 13)] ''call 555-1234 now''
    = (fst (process_matches [(5, 13)] ''call 555-1234 now''),
       snd (process_matches [(5, 13)] ''call 555-1234 now''))" by simp
  show ?thesis using process_matches_invariant_strict [OF a b c d] a b c by simp
qed

text \<open>
  C3, as stated, has the offsets \<open>[0, 6]\<close> for the spans \<open>(0, 3)\<close> and \<open>(3, 6)\<close> on
  \<open>foobar\<close>. The loop appends the end of every span, also of one that starts where the
  previous span ended, so the offset \<open>3\<close> stays.
\<close>

theorem foobar_offsets_counterexample:
  "snd (process_matches [(0, 3), (3, 6)] ''foobar'') \<noteq> [0, 6]"
  by (simp add: process_matches_def process_matches_state_def loop_body_def Let_def)

text \<open>
  C3 (amended): for the match spans \<open>[(0, 3), (3, 6)]\<close> on the text \<open>foobar\<close> the
  resolver returns the offsets \<open>[0, 3, 6]\<close> and the flags \<open>[True, True]\<close>: two
  highlighted segments that touch, which together cover \<open>[0, 6)\<close>.
\<close>

theorem foobar_plan:
  "process_matches [(0, 3), (3, 6)] ''foobar'' = ([True, True], [0, 3, 6])"
  by (simp add: process_matches_def process_matches_state_def loop_body_def Let_def)

text \<open>
  C4, as stated, has the offsets \<open>[0, 5, 14, 17]\<close>. The pattern \<open>555-1234\<close> has eight
  characters and occurs at position \<open>5\<close> of \<open>call 555-1234 now\<close>, so its span is
  \<open>(5, 13)\<close>.
\<close>

theorem phone_offsets_counterexample:
  "finditer_literal ''555-1234'' ''call 555-1234 now'' = [(5, 13)]
   \<and> length ''call 555-1234 now'' = 17
   \<and> process_matches (finditer_literal ''555-1234'' ''call 555-1234 now'') ''call 555-1234 now''
       \<noteq> ([False, True, False], [0, 5, 14, 17])"
  by (simp add: process_matches_def process_matches_state_def loop_body_def Let_def finditer_literal_def)

text \<open>
  C4 (amended): for the run text \<open>call 555-1234 now\<close> (length 17) and the single match
  span of the pattern \<open>555-1234\<close>, the resolver returns the offsets \<open>[0, 5, 13, 17]\<close>
  and the flags \<open>[False, True, False]\<close>.
\<close>

theorem phone_plan:
  "process_matches (finditer_literal ''555-1234'' ''call 555-1234 now'') ''call 555-1234 now''
     = ([False, True, False], [0, 5, 13, 17])"
  by (simp add: process_matches_def process_matches_state_def loop_body_def Let_def finditer_literal_def)

text \<open>
  C5: when \<open>N \<ge> 1\<close> match spans are found in a run, exactly \<open>N\<close> segments of the plan
  returned by \<open>process_matches\<close> are flagged as highlighted, and the offsets list has
  length \<open>len(highlights) + 1\<close>. The code gives this for every non-empty list of spans;
  spans that are ascending, do not overlap and have \<open>start < end\<close> are a special case.
\<close>

theorem highlighted_count:
  assumes "mp \<noteq> []" and "process_matches mp t = (hs, ms)"
  shows "length (filter (\<lambda>h. h) hs) = length mp \<and> length ms = length hs + 1"
  using assms by (auto simp add: process_matches_unfold count_seg_flags length_seg)

theorem highlighted_count_witness:
  "[(0, 6), (6, 12)] \<noteq> ([] :: span list)
   \<and> length (filter (\<lambda>h. h) (fst (process_matches [(0, 6), (6, 12)] ''secretsecret''))) = 2
   \<and> length (snd (process_matches [(0, 6), (6, 12)] ''secretsecret''))
       = length (fst (process_matches [(0, 6), (6, 12)] ''secretsecret'')) + 1"
proof -
  have a: "[(0, 6), (6, 12)] \<noteq> ([] :: span list)" by simp
  have d: "process_matches [(0, 6), (6, 12)] ''secretsecret''
    = (fst (process_matches [(0, 6), (6, 12)] ''secretsecret''),
       snd (process_matches [(0, 6), (6, 12)] ''secretsecret''))" by simp
  show ?thesis using highlighted_count [OF a d] by simp
qed

text \<open>
  C10: \<open>process_matches\<close> depends on \<open>run_text\<close> only through its length: two calls
  with the same \<open>match_pairs\<close> and texts of equal length return the same pair of
  lists; and the list \<open>match_pairs\<close> is the same after the call as before. The function
  is a function of its two arguments alone, so equal arguments give equal results.
\<close>

theorem process_matches_length_only:
  "length t1 = length t2 \<Longrightarrow>
     process_matches mp t1 = process_matches mp t2
     \<and> match_pairs (process_matches_state mp t1) = mp"
  by (cases "mp = []")
     (simp_all add: process_matches_unfold process_matches_Nil process_matches_state_unfold,
      simp add: process_matches_state_def)

theorem process_matches_length_only_witness:
  "length ''foobar'' = length ''barfoo''
   \<and> process_matches [(0, 3)] ''foobar'' = process_matches [(0, 3)] ''barfoo''
   \<and> match_pairs (process_matches_state [(0, 3)] ''foobar'') = [(0, 3)]"
  using process_matches_length_only [of "''foobar''" "''barfoo''" "[(0, 3)]"] by simp

section \<open>The claims about the colours\<close>

text \<open>
  C9: \<open>redact_colors\<close> maps \<open>white\<close> to \<open>(RGBColor(255,255,255), WHITE)\<close>, \<open>yellow\<close> to
  \<open>(RGBColor(255,255,0), YELLOW)\<close>, and every other argument, \<open>None\<close> included, to
  \<open>(RGBColor(0,0,0), BLACK)\<close>; it returns a value for every argument.
\<close>

theorem redact_colors_table:
  "redact_colors (Some ''white'') = (RGBColor 255 255 255, WHITE)
   \<and> redact_colors (Some ''yellow'') = (RGBColor 255 255 0, YELLOW)
   \<and> (\<forall>color. color \<noteq> Some ''white'' \<and> color \<noteq> Some ''yellow''
        \<longrightarrow> redact_colors color = (RGBColor 0 0 0, BLACK))"
  by (simp add: redact_colors_def switcher_def)

theorem redact_colors_table_witness:
  "None \<noteq> Some ''white'' \<and> None \<noteq> Some ''yellow''
   \<and> redact_colors None = (RGBColor 0 0 0, BLACK)
   \<and> Some ''red'' \<noteq> Some ''white'' \<and> Some ''red'' \<noteq> Some ''yellow''
   \<and> redact_colors (Some ''red'') = (RGBColor 0 0 0, BLACK)"
  using redact_colors_table by simp

section \<open>The claims about the orchestrator\<close>

text \<open>
  The length check of the orchestrator. Whatever the spans and the text are, the two
  lists that \<open>process_matches\<close> returns never fail the check, so no document reaches
  the branch that builds the \<open>ValueError\<close>. Entered with lists that do not fit, such
  as \<open>[True]\<close> and \<open>[0, 1, 2]\<close>, the branch leaves the run as it is and returns
  normally, since the exception is built and not raised.
\<close>

lemma length_check_never_fires:
  assumes "process_matches mp t = (hs, ms)"
  shows "\<not> (length hs > 0 \<and> length ms > 0 \<and> int (length hs) \<noteq> int (length ms) - 1)"
  using process_matches_lengths [OF assms] by auto

lemma mismatch_not_raised:
  "apply_plan split replace_with txt_color background_color r [True] [0, 1, 2] = Inr [r]"
  by (simp add: apply_plan_def)

text \<open>
  C6: whenever the resolver returns the two offsets \<open>[0, len(run.text)]\<close> for a run,
  the orchestrator changes that run in place, whatever the splitter is: the run's place
  is taken by the one run whose text is the replacement if one is given and the old
  text otherwise, and whose highlight colour and text colour are the redaction colours.
\<close>

theorem whole_run_in_place:
  assumes "snd (process_matches (finditer (rtext r)) (rtext r)) = [0, int (length (rtext r))]"
  shows "redact_run finditer split replace_with txt_color background_color r
           = Inr [r\<lparr>rtext := (case replace_with of Some s \<Rightarrow> s | None \<Rightarrow> rtext r),
                     highlight_color := Some background_color,
                     color_rgb := Some txt_color\<rparr>]"
proof -
  obtain hs ms where pm: "process_matches (finditer (rtext r)) (rtext r) = (hs, ms)"
    by (cases "process_matches (finditer (rtext r)) (rtext r)")
  with assms have ms: "ms = [0, int (length (rtext r))]" by simp
  from process_matches_lengths [OF pm] ms have "length hs = 1" by auto
  moreover have "length ms = 2" by (simp add: ms)
  ultimately show ?thesis
    by (simp add: redact_run_def pm apply_plan_whole_run redact_span_eq)
qed

theorem whole_run_in_place_witness:
  "snd (process_matches (finditer_literal ''secret'' ''secret'') ''secret'') = [0, int (length ''secret'')]
   \<and> redact_run (finditer_literal ''secret'') (split_run_by (UNIV :: string set)) (Some ''XXX'') (RGBColor 0 0 0) BLACK
        \<lparr>rtext = ''secret'', highlight_color = None, color_rgb = None, formatting = [''bold'' \<mapsto> ''1'']\<rparr>
      = Inr [\<lparr>rtext = ''XXX'', highlight_color = Some BLACK, color_rgb = Some (RGBColor 0 0 0),
              formatting = [''bold'' \<mapsto> ''1'']\<rparr>]"
proof -
  have h: "snd (process_matches
      (finditer_literal ''secret''
         (rtext \<lparr>rtext = ''secret'', highlight_color = None, color_rgb = None, formatting = [''bold'' \<mapsto> ''1'']\<rparr>))
      (rtext \<lparr>rtext = ''secret'', highlight_color = None, color_rgb = None, formatting = [''bold'' \<mapsto> ''1'']\<rparr>))
    = [0, int (length (rtext \<lparr>rtext = ''secret'', highlight_color = None, color_rgb = None,
         formatting = [''bold'' \<mapsto> ''1'']\<rparr>))]"
    by (simp add: process_matches_def process_matches_state_def loop_body_def Let_def
        finditer_literal_def)
  show ?thesis
    using whole_run_in_place
      [where finditer = "finditer_literal ''secret''"
         and r = "\<lparr>rtext = ''secret'', highlight_color = None, color_rgb = None, formatting = [''bold'' \<mapsto> ''1'']\<rparr>"
         and split = "split_run_by (UNIV :: string set)" and replace_with = "Some ''XXX''"
         and txt_color = "RGBColor 0 0 0" and background_color = BLACK, OF h] h
    by simp
qed

text \<open>
  C8: the text of a matched segment is replaced exactly when \<open>replace_with\<close> is not
  \<open>None\<close>. On the whole-run path and, after a split, for every run whose flag is true:
  with \<open>replace_with = None\<close> the text stays and only the colours are set; with
  \<open>replace_with = Some s\<close>, the empty string included, the text becomes \<open>s\<close>.
\<close>

theorem replace_iff_present:
  assumes "process_matches (finditer (rtext r)) (rtext r) = (hs, ms)"
  shows "(length ms = 2 \<longrightarrow>
            (\<exists>r'. redact_run finditer split replace_with txt_color background_color r = Inr [r']
                 \<and> rtext r' = (case replace_with of Some s \<Rightarrow> s | None \<Rightarrow> rtext r)
                 \<and> highlight_color r' = Some background_color
                 \<and> color_rgb r' = Some txt_color))
       \<and> (2 < length ms \<longrightarrow>
            (\<exists>rs. redact_run finditer split replace_with txt_color background_color r = Inr rs
                 \<and> (\<forall>i. i < length hs \<and> i < length (split r (butlast (tl ms))) \<and> hs ! i \<longrightarrow>
                        rtext (rs ! i)
                          = (case replace_with of Some s \<Rightarrow> s
                             | None \<Rightarrow> rtext (split r (butlast (tl ms)) ! i))
                        \<and> highlight_color (rs ! i) = Some background_color
                        \<and> color_rgb (rs ! i) = Some txt_color)))"
proof (intro conjI impI)
  assume l: "length ms = 2"
  with process_matches_lengths [OF assms] have "length hs = 1" by auto
  then have "redact_run finditer split replace_with txt_color background_color r
      = Inr [redact_span replace_with txt_color background_color r]"
    using l by (simp add: redact_run_def assms apply_plan_whole_run)
  then show "\<exists>r'. redact_run finditer split replace_with txt_color background_color r = Inr [r']
                 \<and> rtext r' = (case replace_with of Some s \<Rightarrow> s | None \<Rightarrow> rtext r)
                 \<and> highlight_color r' = Some background_color
                 \<and> color_rgb r' = Some txt_color"
    by (simp add: redact_span_fields)
next
  assume l: "2 < length ms"
  with process_matches_lengths [OF assms]
  have "hs \<noteq> []" "length ms = length hs + 1" "length ms \<noteq> 2" by auto
  then have "redact_run finditer split replace_with txt_color background_color r
      = Inr (highlight_runs replace_with txt_color background_color hs (split r (butlast (tl ms))))"
    by (simp add: redact_run_def assms apply_plan_split)
  then show "\<exists>rs. redact_run finditer split replace_with txt_color background_color r = Inr rs
                 \<and> (\<forall>i. i < length hs \<and> i < length (split r (butlast (tl ms))) \<and> hs ! i \<longrightarrow>
                        rtext (rs ! i)
                          = (case replace_with of Some s \<Rightarrow> s
                             | None \<Rightarrow> rtext (split r (butlast (tl ms)) ! i))
                        \<and> highlight_color (rs ! i) = Some background_color
                        \<and> color_rgb (rs ! i) = Some txt_color)"
    by (simp add: nth_highlight_runs redact_span_fields)
qed

theorem replace_iff_present_witness:
  "process_matches (finditer_literal ''secret'' ''secret'') ''secret'' = ([True], [0, 6])
   \<and> length [0, 6 :: int] = 2
   \<and> (\<exists>r'. redact_run (finditer_literal ''secret'') (split_run_by (UNIV :: string set)) None (RGBColor 0 0 0) BLACK
              \<lparr>rtext = ''secret'', highlight_color = None, color_rgb = None, formatting = [''bold'' \<mapsto> ''1'']\<rparr>
            = Inr [r']
          \<and> rtext r' = ''secret'' \<and> highlight_color r' = Some BLACK
          \<and> color_rgb r' = Some (RGBColor 0 0 0))
   \<and> process_matches (finditer_literal ''secret'' ''my secret'') ''my secret''
       = ([False, True], [0, 3, 9])
   \<and> 2 < length [0, 3, 9 :: int]
   \<and> 1 < length [False, True]
   \<and> 1 < length (split_run_by (UNIV :: string set)
          \<lparr>rtext = ''my secret'', highlight_color = None, color_rgb = None, formatting = [''bold'' \<mapsto> ''1'']\<rparr>
          (butlast (tl [0, 3, 9])))
   \<and> [False, True] ! 1
   \<and> (\<exists>rs. redact_run (finditer_literal ''secret'') (split_run_by (UNIV :: string set)) (Some '''') (RGBColor 0 0 0) BLACK
              \<lparr>rtext = ''my secret'', highlight_color = None, color_rgb = None, formatting = [''bold'' \<mapsto> ''1'']\<rparr>
            = Inr rs
          \<and> rtext (rs ! 1) = '''' \<and> highlight_color (rs ! 1) = Some BLACK
          \<and> color_rgb (rs ! 1) = Some (RGBColor 0 0 0))"
proof -
  let ?r1 = "\<lparr>rtext = ''secret'', highlight_color = None, color_rgb = None, formatting = [''bold'' \<mapsto> ''1'']\<rparr>"
  let ?r2 = "\<lparr>rtext = ''my secret'', highlight_color = None, color_rgb = None, formatting = [''bold'' \<mapsto> ''1'']\<rparr>"
  have h1: "process_matches (finditer_literal ''secret'' (rtext ?r1)) (rtext ?r1) = ([True], [0, 6])"
    by (simp add: process_matches_def process_matches_state_def loop_body_def Let_def
        finditer_literal_def)
  have h2: "process_matches (finditer_literal ''secret'' (rtext ?r2)) (rtext ?r2)
      = ([False, True], [0, 3, 9])"
    by (simp add: process_matches_def process_matches_state_def loop_body_def Let_def
        finditer_literal_def)
  have l: "1 < length (split_run_by (UNIV :: string set) ?r2 (butlast (tl [0, 3, 9])))"
    by (simp add: split_run_by_def Let_def)
  note a = replace_iff_present
      [where finditer = "finditer_literal ''secret''" and r = ?r1 and split = "split_run_by (UNIV :: string set)"
         and replace_with = None and txt_color = "RGBColor 0 0 0" and background_color = BLACK,
       OF h1]
  note b = replace_iff_present
      [where finditer = "finditer_literal ''secret''" and r = ?r2 and split = "split_run_by (UNIV :: string set)"
         and replace_with = "Some ''''" and txt_color = "RGBColor 0 0 0"
         and background_color = BLACK,
       OF h2]
  from a have A: "\<exists>r'. redact_run (finditer_literal ''secret'') (split_run_by (UNIV :: string set)) None (RGBColor 0 0 0) BLACK ?r1
            = Inr [r']
          \<and> rtext r' = ''secret'' \<and> highlight_color r' = Some BLACK
          \<and> color_rgb r' = Some (RGBColor 0 0 0)"
    by simp
  from b obtain rs where rs: "redact_run (finditer_literal ''secret'') (split_run_by (UNIV :: string set)) (Some '''')
        (RGBColor 0 0 0) BLACK ?r2 = Inr rs"
    and all: "\<forall>i. i < length [False, True] \<and> i < length (split_run_by (UNIV :: string set) ?r2 (butlast (tl [0, 3, 9])))
          \<and> [False, True] ! i \<longrightarrow>
        rtext (rs ! i) = (case Some '''' of Some s \<Rightarrow> s
                          | None \<Rightarrow> rtext (split_run_by (UNIV :: string set) ?r2 (butlast (tl [0, 3, 9])) ! i))
        \<and> highlight_color (rs ! i) = Some BLACK
        \<and> color_rgb (rs ! i) = Some (RGBColor 0 0 0)"
    by auto
  from all [rule_format, of 1] l
  have "rtext (rs ! 1) = '''' \<and> highlight_color (rs ! 1) = Some BLACK
          \<and> color_rgb (rs ! 1) = Some (RGBColor 0 0 0)"
    by simp
  with rs have B: "\<exists>rs. redact_run (finditer_literal ''secret'') (split_run_by (UNIV :: string set)) (Some '''')
        (RGBColor 0 0 0) BLACK ?r2 = Inr rs
          \<and> rtext (rs ! 1) = '''' \<and> highlight_color (rs ! 1) = Some BLACK
          \<and> color_rgb (rs ! 1) = Some (RGBColor 0 0 0)"
    by blast
  show ?thesis using h1 h2 l A B by simp
qed




end
